theory Spec2Isabelle
  imports Main "HOL-Library.AList"
begin

section \<open>Source configuration (core/config\_manager.py)\<close>

text \<open>
  One entry of \<^verbatim>\<open>config["cameras"]\<close>. The entries are JSON objects, so every key may be
  absent: a field is \<open>None\<close> when the dictionary has no such key. \<^verbatim>\<open>dict.get(k, d)\<close> is
  \<open>dict_get\<close> below; \<^verbatim>\<open>dict[k]\<close> on an absent key raises \<^verbatim>\<open>KeyError\<close>.
\<close>

record camera_config =
  enabled :: "bool option"
  source_type :: "string option"
  url :: "string option"
  device :: "int option"
  name :: "string option"

definition dict_get :: "'a option \<Rightarrow> 'a \<Rightarrow> 'a" where
  "dict_get field dflt = (case field of None \<Rightarrow> dflt | Some v \<Rightarrow> v)"

text \<open>Decimal printing of an integer, as an f-string does it.\<close>

definition digit_char :: "nat \<Rightarrow> char" where
  "digit_char d = char_of (48 + d)"

fun str_nat :: "nat \<Rightarrow> string" where
  "str_nat n = (if n < 10 then [digit_char n] else str_nat (n div 10) @ [digit_char (n mod 10)])"

declare str_nat.simps [simp del]

definition str_int :: "int \<Rightarrow> string" where
  "str_int i = (if i < 0 then CHR ''-'' # str_nat (nat (- i)) else str_nat (nat i))"

text \<open>The dictionary \<^verbatim>\<open>get_camera_config\<close> builds for an index outside the list.\<close>

definition default_camera_config :: "int \<Rightarrow> camera_config" where
  "default_camera_config camera_index =
     \<lparr>enabled = Some False, source_type = Some ''rtsp'', url = Some '''', device = Some 0,
      name = Some (''Camera '' @ str_int (camera_index + 1))\<rparr>"

text \<open>\<^verbatim>\<open>ConfigManager.get_camera_config\<close>; \<open>cams\<close> is \<^verbatim>\<open>self.config["cameras"]\<close>.\<close>

definition get_camera_config :: "camera_config list \<Rightarrow> int \<Rightarrow> camera_config" where
  "get_camera_config cams camera_index =
     (if 0 \<le> camera_index \<and> camera_index < int (length cams) then cams ! nat camera_index
      else default_camera_config camera_index)"

text \<open>
  \<^verbatim>\<open>ConfigManager.set_camera_config\<close>: the new list and the returned flag (writing the file
  is left out).
\<close>

definition set_camera_config ::
  "camera_config list \<Rightarrow> int \<Rightarrow> camera_config \<Rightarrow> camera_config list \<times> bool" where
  "set_camera_config cams camera_index camera_config =
     (if 0 \<le> camera_index \<and> camera_index < int (length cams)
      then (cams[nat camera_index := camera_config], True)
      else (cams, False))"

section \<open>What the capture device answers\<close>

text \<open>
  OpenCV is the environment. \<^verbatim>\<open>cv2.VideoCapture(target)\<close> followed by \<^verbatim>\<open>isOpened()\<close> gives an
  \<open>open_result\<close>; \<^verbatim>\<open>cap.read()\<close> gives a \<open>read_result\<close>: \<open>ReadOk f\<close> is \<^verbatim>\<open>(True, f)\<close>,
  \<open>ReadFail\<close> is \<^verbatim>\<open>(False, None)\<close>, and \<open>ReadRaise e\<close> an exception whose \<^verbatim>\<open>str\<close> is \<open>e\<close>.
\<close>

datatype open_result = OpenOk | OpenFail | OpenRaise string

datatype 'f read_result = ReadOk 'f | ReadFail | ReadRaise string

section \<open>The bounded queue (queue.Queue(maxsize=2), non-blocking calls only)\<close>

datatype queue_exc = Full | Empty

definition maxsize :: nat where
  "maxsize = 2"

text \<open>\<^verbatim>\<open>Queue.put(x, block=False)\<close>: the oldest element is the head of the list.\<close>

definition put_nowait :: "'f list \<Rightarrow> 'f \<Rightarrow> queue_exc + 'f list" where
  "put_nowait q x = (if maxsize \<le> length q then Inl Full else Inr (q @ [x]))"

text \<open>\<^verbatim>\<open>Queue.get(block=False)\<close>.\<close>

definition get_nowait :: "'f list \<Rightarrow> queue_exc + 'f \<times> 'f list" where
  "get_nowait q = (case q of [] \<Rightarrow> Inl Empty | x # xs \<Rightarrow> Inr (x, xs))"

text \<open>
  Lines 97 to 106 of core/camera\_manager.py, the producer's push. The result is the queue
  afterwards and the exception that leaves the block, if any: \<^verbatim>\<open>queue.Empty\<close> of the inner
  \<^verbatim>\<open>get\<close> is swallowed by \<^verbatim>\<open>pass\<close>, \<^verbatim>\<open>queue.Full\<close> of the inner \<^verbatim>\<open>put\<close> is not caught here.
\<close>

definition push_frame :: "'f list \<Rightarrow> 'f \<Rightarrow> 'f list \<times> queue_exc option" where
  "push_frame q frame =
     (case put_nowait q frame of
        Inr q' \<Rightarrow> (q', None)
      | Inl _ \<Rightarrow>
          (case get_nowait q of
             Inl _ \<Rightarrow> (q, None)
           | Inr (_, q1) \<Rightarrow>
               (case put_nowait q1 frame of
                  Inr q2 \<Rightarrow> (q2, None)
                | Inl e \<Rightarrow> (q1, Some e))))"

section \<open>The capture thread (class CameraThread)\<close>

text \<open>
  The attributes of the object, and the worker's own state: where it is in \<^verbatim>\<open>run\<close>
  (\<open>phase\<close>), the local \<^verbatim>\<open>read_failures\<close>, and whether \<^verbatim>\<open>cap\<close> holds an open, unreleased
  capture handle (\<open>cap_open\<close>). The phases of a worker: not started; started, before \<^verbatim>\<open>run\<close>;
  at the test of the loop; in \<^verbatim>\<open>cap.read()\<close>, the test passed; out of the loop, before
  \<^verbatim>\<open>cap.release()\<close>; between \<^verbatim>\<open>cap.release()\<close> and \<^verbatim>\<open>self.connected = False\<close>; returned.
\<close>

datatype phase = Created | Started | Looping | Reading | Leaving | Released | Finished

record 'f camera_thread =
  camera_index :: int
  config :: camera_config
  running :: bool
  connected :: bool
  frame_queue :: "'f list"
  latest_frame :: "'f option"
  phase :: phase
  read_failures :: nat
  cap_open :: bool

text \<open>\<^verbatim>\<open>CameraThread.__init__\<close>.\<close>

definition new_thread :: "int \<Rightarrow> camera_config \<Rightarrow> 'f camera_thread" where
  "new_thread i cfg =
     \<lparr>camera_index = i, config = cfg, running = False, connected = False, frame_queue = [],
      latest_frame = None, phase = Created, read_failures = 0, cap_open = False\<rparr>"

text \<open>\<^verbatim>\<open>Thread.start\<close>: the worker exists and will execute \<^verbatim>\<open>run\<close>.\<close>

definition start :: "'f camera_thread \<Rightarrow> 'f camera_thread" where
  "start t = t\<lparr>phase := Started\<rparr>"

text \<open>\<^verbatim>\<open>Thread.is_alive\<close>.\<close>

definition is_alive :: "'f camera_thread \<Rightarrow> bool" where
  "is_alive t = (phase t \<noteq> Created \<and> phase t \<noteq> Finished)"

text \<open>
  Lines 41 to 75 of \<^verbatim>\<open>run\<close>, up to the loop. \<open>opened\<close> is what \<^verbatim>\<open>cap.isOpened()\<close> answers.
\<close>

definition run_begin :: "bool \<Rightarrow> 'f camera_thread \<Rightarrow> 'f camera_thread" where
  "run_begin opened t =
     (let t1 = t\<lparr>running := True\<rparr> in
      if \<not> dict_get (enabled (config t1)) False then t1\<lparr>phase := Finished\<rparr>
      else if source_type (config t1) = Some ''rtsp'' \<and> dict_get (url (config t1)) '''' = ''''
        then t1\<lparr>phase := Finished\<rparr>
      else if \<not> opened then t1\<lparr>phase := Finished\<rparr>
      else t1\<lparr>connected := True, cap_open := True, read_failures := 0, phase := Looping\<rparr>)"

text \<open>
  One pass of the loop, in the steps in which the code takes it. \<open>loop_test\<close> is the test of
  \<^verbatim>\<open>while self.running\<close> (line 76): the worker goes on to its read, or leaves the loop.
\<close>

definition loop_test :: "'f camera_thread \<Rightarrow> 'f camera_thread" where
  "loop_test t = (if running t then t\<lparr>phase := Reading\<rparr> else t\<lparr>phase := Leaving\<rparr>)"

text \<open>
  \<open>loop_body\<close> is the body (lines 77 to 113) once \<^verbatim>\<open>cap.read()\<close> has answered \<open>r\<close>; the flag is
  not looked at again before the next test. An exception in the body is logged and the loop
  goes on; \<^verbatim>\<open>break\<close> leaves the loop.
\<close>

definition loop_body :: "'f read_result \<Rightarrow> 'f camera_thread \<Rightarrow> 'f camera_thread" where
  "loop_body r t =
     (case r of
        ReadRaise e \<Rightarrow> t\<lparr>phase := Looping\<rparr>
      | ReadFail \<Rightarrow>
          (let t1 = t\<lparr>read_failures := read_failures t + 1\<rparr> in
           if read_failures t1 > 5 then t1\<lparr>connected := False, phase := Leaving\<rparr>
           else t1\<lparr>phase := Looping\<rparr>)
      | ReadOk frame \<Rightarrow>
          (let t1 = t\<lparr>read_failures := 0, latest_frame := Some frame\<rparr> in
           t1\<lparr>frame_queue := fst (push_frame (frame_queue t1) frame), phase := Looping\<rparr>))"

text \<open>After the loop: \<^verbatim>\<open>cap.release()\<close> (line 116), then \<^verbatim>\<open>self.connected = False\<close> (line 117).\<close>

definition release :: "'f camera_thread \<Rightarrow> 'f camera_thread" where
  "release t = t\<lparr>cap_open := False, phase := Released\<rparr>"

definition disconnect :: "'f camera_thread \<Rightarrow> 'f camera_thread" where
  "disconnect t = t\<lparr>connected := False, phase := Finished\<rparr>"

definition exit_loop :: "'f camera_thread \<Rightarrow> 'f camera_thread" where
  "exit_loop t = disconnect (release t)"

text \<open>
  A whole pass that nothing interrupts: the test, the read answering \<open>r\<close>, the body, and the
  two lines after the loop when the pass leaves it.
\<close>

definition run_iter :: "'f read_result \<Rightarrow> 'f camera_thread \<Rightarrow> 'f camera_thread" where
  "run_iter r t =
     (let t1 = loop_test t in
      if phase t1 = Leaving then exit_loop t1
      else (let t2 = loop_body r t1 in if phase t2 = Leaving then exit_loop t2 else t2))"

text \<open>\<^verbatim>\<open>CameraThread.get_frame\<close>: the value returned and the object afterwards.\<close>

definition get_frame :: "'f camera_thread \<Rightarrow> 'f option \<times> 'f camera_thread" where
  "get_frame t =
     (case get_nowait (frame_queue t) of
        Inr (frame, q') \<Rightarrow> (Some frame, t\<lparr>frame_queue := q'\<rparr>)
      | Inl _ \<Rightarrow> (latest_frame t, t))"

text \<open>
  A step of the worker: the opening part of \<^verbatim>\<open>run\<close>, a whole pass of the loop, or one of the
  steps of a pass, between which the consumer and \<^verbatim>\<open>stop\<close> can act. A step that does not fit
  the phase leaves the thread as it is (a finished worker does nothing more).
\<close>

datatype 'f work =
  Begin bool | Iter "'f read_result" | Test | Read "'f read_result" | Release | Disconnect

fun work_step :: "'f work \<Rightarrow> 'f camera_thread \<Rightarrow> 'f camera_thread" where
  "work_step (Begin opened) t = (if phase t = Started then run_begin opened t else t)"
| "work_step (Iter r) t = (if phase t = Looping then run_iter r t else t)"
| "work_step Test t = (if phase t = Looping then loop_test t else t)"
| "work_step (Read r) t = (if phase t = Reading then loop_body r t else t)"
| "work_step Release t = (if phase t = Leaving then release t else t)"
| "work_step Disconnect t = (if phase t = Released then disconnect t else t)"

text \<open>
  A run of worker steps, and \<^verbatim>\<open>Thread.join(timeout=1.0)\<close>: \<open>ws\<close> are the steps the worker
  completes before the call returns, none when the worker stays inside a blocking read
  for the whole second.
\<close>

definition run_work :: "'f work list \<Rightarrow> 'f camera_thread \<Rightarrow> 'f camera_thread" where
  "run_work ws t = fold work_step ws t"

definition join :: "'f work list \<Rightarrow> 'f camera_thread \<Rightarrow> 'f camera_thread" where
  "join ws t = run_work ws t"

text \<open>\<^verbatim>\<open>CameraThread.stop\<close>.\<close>

definition stop :: "'f work list \<Rightarrow> 'f camera_thread \<Rightarrow> 'f camera_thread" where
  "stop ws t = (let t1 = t\<lparr>running := False\<rparr> in if is_alive t1 then join ws t1 else t1)"

text \<open>
  What can happen to one thread object, in any order: a step of its worker, a consumer
  calling \<^verbatim>\<open>get_frame\<close>, and \<^verbatim>\<open>stop\<close> clearing the flag.
\<close>

datatype 'f event = Work "'f work" | GetFrame | StopFlag

fun apply_event :: "'f event \<Rightarrow> 'f camera_thread \<Rightarrow> 'f camera_thread" where
  "apply_event (Work w) t = work_step w t"
| "apply_event GetFrame t = snd (get_frame t)"
| "apply_event StopFlag t = t\<lparr>running := False\<rparr>"

definition run_trace :: "'f event list \<Rightarrow> 'f camera_thread \<Rightarrow> 'f camera_thread" where
  "run_trace evs t = fold apply_event evs t"

text \<open>
  How many times along a trace the loop's \<^verbatim>\<open>cap.read()\<close> returned a frame: the whole passes
  \<open>Iter (ReadOk f)\<close> taken with the flag set, and the steps \<open>Read (ReadOk f)\<close> of a worker
  that is in its read.
\<close>

fun good_reads :: "'f event list \<Rightarrow> 'f camera_thread \<Rightarrow> nat" where
  "good_reads [] t = 0"
| "good_reads (e # evs) t =
     (case e of
        Work (Iter (ReadOk f)) \<Rightarrow> (if phase t = Looping \<and> running t then 1 else 0)
      | Work (Read (ReadOk f)) \<Rightarrow> (if phase t = Reading then 1 else 0)
      | _ \<Rightarrow> 0) + good_reads evs (apply_event e t)"

section \<open>The supervisor (class CameraManager)\<close>

text \<open>
  \<open>cameras\<close> is the list held by the configuration manager; \<open>camera_threads\<close> is the
  dictionary, in insertion order.
\<close>

record 'f camera_manager =
  cameras :: "camera_config list"
  camera_threads :: "(int \<times> 'f camera_thread) list"

datatype py_error = KeyError

text \<open>\<^verbatim>\<open>d[k]\<close> on a dictionary.\<close>

definition dict_item :: "('k \<times> 'v) list \<Rightarrow> 'k \<Rightarrow> py_error + 'v" where
  "dict_item d k = (case map_of d k of None \<Rightarrow> Inl KeyError | Some v \<Rightarrow> Inr v)"

definition dict_contains :: "('k \<times> 'v) list \<Rightarrow> 'k \<Rightarrow> bool" where
  "dict_contains d k = (k \<in> set (map fst d))"

text \<open>
  \<^verbatim>\<open>CameraManager.get_frame\<close>: the frame returned (or \<^verbatim>\<open>None\<close>) and the manager afterwards.
\<close>

definition mgr_get_frame ::
  "'f camera_manager \<Rightarrow> int \<Rightarrow> py_error + ('f option \<times> 'f camera_manager)" where
  "mgr_get_frame m i =
     (if dict_contains (camera_threads m) i then
        (case dict_item (camera_threads m) i of
           Inl e \<Rightarrow> Inl e
         | Inr t \<Rightarrow>
             if connected t then
               (case dict_item (camera_threads m) i of
                  Inl e \<Rightarrow> Inl e
                | Inr t' \<Rightarrow>
                    (let (frame, t'') = get_frame t' in
                     Inr (frame, m\<lparr>camera_threads := AList.update i t'' (camera_threads m)\<rparr>)))
             else Inr (None, m))
      else Inr (None, m))"

text \<open>\<^verbatim>\<open>CameraManager.is_camera_connected\<close>.\<close>

definition is_camera_connected :: "'f camera_manager \<Rightarrow> int \<Rightarrow> py_error + bool" where
  "is_camera_connected m i =
     (if dict_contains (camera_threads m) i then
        (case dict_item (camera_threads m) i of Inl e \<Rightarrow> Inl e | Inr t \<Rightarrow> Inr (connected t))
      else Inr False)"

text \<open>
  \<^verbatim>\<open>CameraManager.stop_camera\<close>. \<open>sched i\<close> are the steps the worker of thread \<open>i\<close> completes
  while \<^verbatim>\<open>stop\<close> waits for it. The second component lists the thread object taken out of
  the dictionary, as it is when the call returns.
\<close>

definition stop_camera ::
  "(int \<Rightarrow> 'f work list) \<Rightarrow> int \<Rightarrow> 'f camera_manager
     \<Rightarrow> 'f camera_manager \<times> 'f camera_thread list" where
  "stop_camera sched i m =
     (case map_of (camera_threads m) i of
        None \<Rightarrow> (m, [])
      | Some t \<Rightarrow>
          (m\<lparr>camera_threads := AList.delete i (camera_threads m)\<rparr>, [stop (sched i) t]))"

text \<open>\<^verbatim>\<open>CameraManager.stop_all_cameras\<close>: the loop over a copy of the keys.\<close>

fun stop_each ::
  "(int \<Rightarrow> 'f work list) \<Rightarrow> int list \<Rightarrow> 'f camera_manager
     \<Rightarrow> 'f camera_manager \<times> 'f camera_thread list" where
  "stop_each sched [] m = (m, [])"
| "stop_each sched (i # is) m =
     (let (m1, s1) = stop_camera sched i m; (m2, s2) = stop_each sched is m1
      in (m2, s1 @ s2))"

definition stop_all_cameras ::
  "(int \<Rightarrow> 'f work list) \<Rightarrow> 'f camera_manager \<Rightarrow> 'f camera_manager \<times> 'f camera_thread list" where
  "stop_all_cameras sched m = stop_each sched (map fst (camera_threads m)) m"

text \<open>The body of the loop of \<^verbatim>\<open>reload_config\<close> for one index.\<close>

definition start_if_enabled :: "int \<Rightarrow> 'f camera_manager \<Rightarrow> 'f camera_manager" where
  "start_if_enabled i m =
     (let cfg = get_camera_config (cameras m) i in
      if dict_get (enabled cfg) False
      then m\<lparr>camera_threads := AList.update i (start (new_thread i cfg)) (camera_threads m)\<rparr>
      else m)"

text \<open>
  \<^verbatim>\<open>CameraManager.reload_config\<close>: the manager afterwards and the thread objects it stopped
  and dropped.
\<close>

definition reload_config ::
  "(int \<Rightarrow> 'f work list) \<Rightarrow> 'f camera_manager \<Rightarrow> 'f camera_manager \<times> 'f camera_thread list" where
  "reload_config sched m =
     (let (m1, stopped) = stop_all_cameras sched m;
          m2 = m1\<lparr>camera_threads := []\<rparr>
      in (fold start_if_enabled (map int [0..<48]) m2, stopped))"

section \<open>The connection test (ConfigManager.test\_camera\_connection)\<close>

text \<open>The calls made on the capture handle, in order.\<close>

datatype cap_op = OpOpen | OpRead | OpRelease

text \<open>
  Open, read once if open, release; \<open>Inl e\<close> is an exception leaving the block with
  \<^verbatim>\<open>str(e) = e\<close>.
\<close>

definition probe ::
  "open_result \<Rightarrow> 'f read_result \<Rightarrow> string \<Rightarrow> (string + bool \<times> string) \<times> cap_op list" where
  "probe opn rd failure =
     (case opn of
        OpenRaise e \<Rightarrow> (Inl e, [OpOpen])
      | OpenFail \<Rightarrow> (Inr (False, failure), [OpOpen, OpRelease])
      | OpenOk \<Rightarrow>
          (case rd of
             ReadRaise e \<Rightarrow> (Inl e, [OpOpen, OpRead])
           | ReadFail \<Rightarrow> (Inr (False, failure), [OpOpen, OpRead, OpRelease])
           | ReadOk frame \<Rightarrow> (Inr (True, ''Connection successful''), [OpOpen, OpRead, OpRelease])))"

text \<open>\<^verbatim>\<open>str(KeyError(k))\<close> is the key in quotes.\<close>

definition key_error :: "string \<Rightarrow> string" where
  "key_error k = [CHR 0x27] @ k @ [CHR 0x27]"

text \<open>The body of the \<^verbatim>\<open>try\<close>.\<close>

definition test_body ::
  "camera_config \<Rightarrow> open_result \<Rightarrow> 'f read_result \<Rightarrow> (string + bool \<times> string) \<times> cap_op list" where
  "test_body cfg opn rd =
     (case source_type cfg of
        None \<Rightarrow> (Inl (key_error ''source_type''), [])
      | Some st \<Rightarrow>
          if st = ''rtsp'' then
            (case url cfg of
               None \<Rightarrow> (Inl (key_error ''url''), [])
             | Some u \<Rightarrow>
                 if u = '''' then (Inr (False, ''RTSP URL is empty''), [])
                 else probe opn rd ''Failed to connect to RTSP stream'')
          else
            (case device cfg of
               None \<Rightarrow> (Inl (key_error ''device''), [])
             | Some device_id \<Rightarrow>
                 probe opn rd (''Failed to connect to local camera device '' @ str_int device_id)))"

text \<open>
  The function: the pair it returns and the calls it made on the capture handle.
  \<^verbatim>\<open>except Exception\<close> turns every exception of the body into a failure.
\<close>

definition test_camera_connection ::
  "int \<Rightarrow> camera_config \<Rightarrow> open_result \<Rightarrow> 'f read_result \<Rightarrow> (bool \<times> string) \<times> cap_op list" where
  "test_camera_connection idx cfg opn rd =
     (case test_body cfg opn rd of
        (Inl e, ops) \<Rightarrow> ((False, ''Error testing connection: '' @ e), ops)
      | (Inr res, ops) \<Rightarrow> (res, ops))"

section \<open>Concrete inputs\<close>

text \<open>An enabled local device, and its thread once the device has opened.\<close>

definition cfg0 :: camera_config where
  "cfg0 = \<lparr>enabled = Some True, source_type = Some ''local'', url = Some '''', device = Some 0,
      name = Some ''Camera 1''\<rparr>"

definition looping0 :: "nat camera_thread" where
  "looping0 = run_work [Begin True] (start (new_thread 0 cfg0))"

text \<open>
  An enabled network source with an empty URL, one with a URL, a supervisor holding the
  opened local device at index 0, a supervisor about to load the empty-URL source, and a
  \<^verbatim>\<open>join\<close> during which no worker completes a step.
\<close>

definition cfg_bad :: camera_config where
  "cfg_bad = \<lparr>enabled = Some True, source_type = Some ''rtsp'', url = Some '''', device = Some 0,
      name = Some ''Camera 1''\<rparr>"

definition cfg_rtsp :: camera_config where
  "cfg_rtsp = \<lparr>enabled = Some True, source_type = Some ''rtsp'', url = Some ''rtsp://cam/1'',
      device = Some 0, name = Some ''Camera 1''\<rparr>"

definition mgr0 :: "nat camera_manager" where
  "mgr0 = \<lparr>cameras = [cfg0], camera_threads = [(0, looping0)]\<rparr>"

definition mgr_bad :: "nat camera_manager" where
  "mgr_bad = \<lparr>cameras = [cfg_bad], camera_threads = []\<rparr>"

definition no_sched :: "int \<Rightarrow> nat work list" where
  "no_sched i = []"



section \<open>Predicates used in the statements\<close>

text \<open>A thread of a network source without URL that holds no capture and is not in its loop.\<close>

definition never_opens :: "'f camera_thread \<Rightarrow> bool" where
  "never_opens t =
     (source_type (config t) = Some ''rtsp'' \<and> dict_get (url (config t)) '''' = '''' \<and>
      \<not> connected t \<and> \<not> cap_open t \<and> (phase t = Started \<or> phase t = Finished))"

text \<open>
  Whether the open, or the read that follows a successful open, raises; and whether a read
  returned a frame.
\<close>

definition raises :: "open_result \<Rightarrow> 'f read_result \<Rightarrow> bool" where
  "raises opn rd =
     (case opn of
        OpenRaise e \<Rightarrow> True
      | OpenFail \<Rightarrow> False
      | OpenOk \<Rightarrow> (case rd of ReadRaise e \<Rightarrow> True | _ \<Rightarrow> False))"

definition is_read_ok :: "'f read_result \<Rightarrow> bool" where
  "is_read_ok rd = (case rd of ReadOk f \<Rightarrow> True | _ \<Rightarrow> False)"

text \<open>
  The descriptors the connection test can probe: the kind is given, a network source has a
  URL that is not empty, any other source has a device.
\<close>

definition probed :: "camera_config \<Rightarrow> bool" where
  "probed cfg =
     (source_type cfg = Some ''rtsp'' \<and> url cfg \<noteq> None \<and> url cfg \<noteq> Some '''' \<or>
      source_type cfg \<noteq> None \<and> source_type cfg \<noteq> Some ''rtsp'' \<and> device cfg \<noteq> None)"

text \<open>The reason the connection test gives when the open or the read fails.\<close>

definition failure_reason :: "camera_config \<Rightarrow> string" where
  "failure_reason cfg =
     (if source_type cfg = Some ''rtsp'' then ''Failed to connect to RTSP stream''
      else ''Failed to connect to local camera device '' @ str_int (dict_get (device cfg) 0))"

text \<open>
  What holds of a thread wherever its worker is: before the loop nothing is open; in the
  loop the capture is open and the flag \<open>connected\<close> set; out of the loop the capture is open
  until it is released, and \<open>connected\<close> is cleared when the worker returns.
\<close>

definition thread_inv :: "'f camera_thread \<Rightarrow> bool" where
  "thread_inv t =
     ((phase t = Created \<or> phase t = Started) \<and> \<not> connected t \<and> \<not> cap_open t \<or>
      (phase t = Looping \<or> phase t = Reading) \<and> connected t \<and> cap_open t \<or>
      phase t = Leaving \<and> cap_open t \<or>
      phase t = Released \<and> \<not> cap_open t \<or>
      phase t = Finished \<and> \<not> connected t \<and> \<not> cap_open t)"



section \<open>The steps of the worker\<close>

lemmas step_defs =
  run_iter_def loop_test_def loop_body_def release_def disconnect_def exit_loop_def

lemma phase_same: "phase t = p \<Longrightarrow> t\<lparr>phase := p\<rparr> = t"
  by (cases t) simp

lemma run_iter_stopped:
  "\<not> running t \<Longrightarrow>
     run_iter r t = t\<lparr>cap_open := False, connected := False, phase := Finished\<rparr>"
  by (simp add: step_defs Let_def)

lemma run_iter_raise:
  "running t \<Longrightarrow> phase t = Looping \<Longrightarrow> run_iter (ReadRaise e) t = t"
  by (simp add: step_defs Let_def phase_same)

lemma run_iter_ok:
  "running t \<Longrightarrow> phase t = Looping \<Longrightarrow>
     run_iter (ReadOk f) t =
       t\<lparr>read_failures := 0, latest_frame := Some f,
         frame_queue := fst (push_frame (frame_queue t) f)\<rparr>"
  by (cases t) (simp add: step_defs Let_def)

lemma run_iter_fail_below:
  "running t \<Longrightarrow> phase t = Looping \<Longrightarrow> read_failures t < 5 \<Longrightarrow>
     run_iter ReadFail t = t\<lparr>read_failures := read_failures t + 1\<rparr>"
  by (cases t) (simp add: step_defs Let_def)

lemma run_iter_fail_above:
  "running t \<Longrightarrow> 5 \<le> read_failures t \<Longrightarrow>
     run_iter ReadFail t =
       t\<lparr>read_failures := read_failures t + 1, connected := False, cap_open := False,
         phase := Finished\<rparr>"
  by (cases t) (simp add: step_defs Let_def)

lemma looping0_eq:
  "looping0 = \<lparr>camera_index = 0, config = cfg0, running = True, connected = True, frame_queue = [],
      latest_frame = None, phase = Looping, read_failures = 0, cap_open = True\<rparr>"
  by (simp add: looping0_def run_work_def start_def new_thread_def cfg0_def run_begin_def
      dict_get_def Let_def)


lemma run_work_snoc: "run_work (ws @ [w]) t = work_step w (run_work ws t)"
  by (simp add: run_work_def)

lemma run_work_Cons: "run_work (w # ws) t = run_work ws (work_step w t)"
  by (simp add: run_work_def)

lemma run_work_Nil: "run_work [] t = t"
  by (simp add: run_work_def)

lemma get_frame_nonempty: "frame_queue t = x # xs \<Longrightarrow> get_frame t = (Some x, t\<lparr>frame_queue := xs\<rparr>)"
  by (simp add: get_frame_def get_nowait_def)

lemma get_frame_empty: "frame_queue t = [] \<Longrightarrow> get_frame t = (latest_frame t, t)"
  by (simp add: get_frame_def get_nowait_def)

lemma get_frame_fields:
  "connected (snd (get_frame t)) = connected t"
  "phase (snd (get_frame t)) = phase t"
  "cap_open (snd (get_frame t)) = cap_open t"
  "running (snd (get_frame t)) = running t"
  "config (snd (get_frame t)) = config t"
  "latest_frame (snd (get_frame t)) = latest_frame t"
  by (cases "frame_queue t"; simp add: get_frame_nonempty get_frame_empty)+

section \<open>The hand-off buffer stays within its bound\<close>

lemma put_nowait_ok: "length q < maxsize \<Longrightarrow> put_nowait q x = Inr (q @ [x])"
  by (simp add: put_nowait_def)

lemma push_frame_room: "length q < maxsize \<Longrightarrow> push_frame q f = (q @ [f], None)"
  by (simp add: push_frame_def put_nowait_ok)

lemma push_frame_full: "length q = maxsize \<Longrightarrow> push_frame q f = (tl q @ [f], None)"
  by (cases q) (auto simp: push_frame_def put_nowait_def get_nowait_def maxsize_def)

lemma push_frame_length: "length q \<le> maxsize \<Longrightarrow> length (fst (push_frame q f)) \<le> maxsize"
  by (cases "length q = maxsize") (auto simp: push_frame_full push_frame_room maxsize_def)

lemma get_frame_queue_length: "length (frame_queue (snd (get_frame t))) \<le> length (frame_queue t)"
  by (cases "frame_queue t") (auto simp: get_frame_def get_nowait_def)

lemma work_step_queue_length:
  "length (frame_queue t) \<le> maxsize \<Longrightarrow> length (frame_queue (work_step w t)) \<le> maxsize"
  by (cases w)
    (auto simp: run_begin_def step_defs Let_def push_frame_length split: read_result.splits)

lemma apply_event_queue_length:
  "length (frame_queue t) \<le> maxsize \<Longrightarrow> length (frame_queue (apply_event e t)) \<le> maxsize"
proof (cases e)
  case (Work w)
  assume "length (frame_queue t) \<le> maxsize"
  then show ?thesis using Work by (simp add: work_step_queue_length)
next
  case GetFrame
  assume "length (frame_queue t) \<le> maxsize"
  then show ?thesis using GetFrame get_frame_queue_length [of t] by simp
next
  case StopFlag
  assume "length (frame_queue t) \<le> maxsize"
  then show ?thesis using StopFlag by simp
qed

lemma run_trace_queue_length:
  "length (frame_queue t) \<le> maxsize \<Longrightarrow> length (frame_queue (run_trace evs t)) \<le> maxsize"
  unfolding run_trace_def
  by (induction evs arbitrary: t) (auto simp: apply_event_queue_length)

lemma pass_queue:
  "running t \<Longrightarrow> phase t = Looping \<Longrightarrow>
     frame_queue (work_step (Iter (ReadOk f)) t) = fst (push_frame (frame_queue t) f)"
  by (simp add: run_iter_ok)

lemma read_queue:
  "phase t = Reading \<Longrightarrow>
     frame_queue (work_step (Read (ReadOk f)) t) = fst (push_frame (frame_queue t) f)"
  by (simp add: loop_body_def Let_def)

text \<open>
  C4. The queue of a capture thread never holds more than its capacity of 2 frames, whatever
  the worker, the consumer and \<^verbatim>\<open>stop\<close> have done so far; the producer's push returns
  without an exception (it uses only the non-blocking calls); into a full queue it drops the
  oldest frame and appends the new one, and otherwise it appends. That is what a successful
  read of the loop does to the thread's queue, as a whole pass and as the step that follows
  the read.
\<close>

theorem queue_never_exceeds_capacity:
  "maxsize = 2 \<and>
   (let q = frame_queue (run_trace evs (start (new_thread i cfg))) in
      length q \<le> maxsize \<and>
      snd (push_frame q f) = None \<and>
      length (fst (push_frame q f)) \<le> maxsize \<and>
      (length q = maxsize \<longrightarrow> fst (push_frame q f) = tl q @ [f]) \<and>
      (length q < maxsize \<longrightarrow> fst (push_frame q f) = q @ [f])) \<and>
   (let t = run_trace evs (start (new_thread i cfg)) in
      (phase t = Looping \<and> running t \<longrightarrow>
         frame_queue (work_step (Iter (ReadOk f)) t) =
           (if length (frame_queue t) < maxsize then frame_queue t @ [f]
            else tl (frame_queue t) @ [f])) \<and>
      (phase t = Reading \<longrightarrow>
         frame_queue (work_step (Read (ReadOk f)) t) =
           (if length (frame_queue t) < maxsize then frame_queue t @ [f]
            else tl (frame_queue t) @ [f])))"
proof -
  let ?t = "run_trace evs (start (new_thread i cfg))"
  let ?q = "frame_queue ?t"
  have len: "length ?q \<le> maxsize"
    by (rule run_trace_queue_length) (simp add: start_def new_thread_def)
  have push: "fst (push_frame ?q f) = (if length ?q < maxsize then ?q @ [f] else tl ?q @ [f])"
    using len by (cases "length ?q = maxsize") (auto simp: push_frame_full push_frame_room)
  have exc: "snd (push_frame ?q f) = None"
    using len by (cases "length ?q = maxsize") (auto simp: push_frame_full push_frame_room)
  have old: "length ?q \<le> maxsize \<and> snd (push_frame ?q f) = None \<and>
      length (fst (push_frame ?q f)) \<le> maxsize \<and>
      (length ?q = maxsize \<longrightarrow> fst (push_frame ?q f) = tl ?q @ [f]) \<and>
      (length ?q < maxsize \<longrightarrow> fst (push_frame ?q f) = ?q @ [f])"
    using len exc push_frame_length [OF len, of f]
    by (simp add: push_frame_full push_frame_room)
  have pass: "phase ?t = Looping \<and> running ?t \<longrightarrow>
      frame_queue (work_step (Iter (ReadOk f)) ?t) =
        (if length ?q < maxsize then ?q @ [f] else tl ?q @ [f])"
    using push pass_queue [of ?t f] by (simp del: work_step.simps)
  have rd: "phase ?t = Reading \<longrightarrow>
      frame_queue (work_step (Read (ReadOk f)) ?t) =
        (if length ?q < maxsize then ?q @ [f] else tl ?q @ [f])"
    using push read_queue [of ?t f] by (simp del: work_step.simps)
  have m: "maxsize = 2"
    by (simp add: maxsize_def)
  show ?thesis
    unfolding Let_def using m old pass rd by blast
qed

lemma two_reads:
  "run_trace [Work (Begin True), Work (Iter (ReadOk 1)), Work (Iter (ReadOk 2))]
     (start (new_thread 0 cfg0)) =
   \<lparr>camera_index = 0, config = cfg0, running = True, connected = True, frame_queue = [1, 2 :: nat],
      latest_frame = Some 2, phase = Looping, read_failures = 0, cap_open = True\<rparr>"
  by (simp add: run_trace_def start_def new_thread_def cfg0_def run_begin_def dict_get_def
      Let_def step_defs push_frame_def put_nowait_def maxsize_def get_nowait_def)

theorem queue_never_exceeds_capacity_witness:
  "(let t = run_trace [Work (Begin True), Work (Iter (ReadOk 1)), Work (Iter (ReadOk 2))]
              (start (new_thread 0 cfg0))
    in frame_queue t = [1, 2 :: nat] \<and> length (frame_queue t) = maxsize \<and>
       phase t = Looping \<and> running t \<and>
       fst (push_frame (frame_queue t) 3) = [2, 3] \<and>
       frame_queue (work_step (Iter (ReadOk 3)) t) = [2, 3])"
proof -
  let ?evs = "[Work (Begin True), Work (Iter (ReadOk 1)), Work (Iter (ReadOk (2::nat)))]"
  let ?t = "run_trace ?evs (start (new_thread 0 cfg0))"
  note th = queue_never_exceeds_capacity [of ?evs 0 cfg0 3, unfolded Let_def]
  have q: "frame_queue ?t = [1, 2]" and p: "phase ?t = Looping" and r: "running ?t"
    unfolding two_reads by simp_all
  have len: "length (frame_queue ?t) = maxsize" "\<not> length (frame_queue ?t) < maxsize"
    unfolding q by (simp_all add: maxsize_def)
  have a: "fst (push_frame (frame_queue ?t) 3) = tl (frame_queue ?t) @ [3]"
    using th len(1) by blast
  have "frame_queue (work_step (Iter (ReadOk 3)) ?t) =
      (if length (frame_queue ?t) < maxsize then frame_queue ?t @ [3]
       else tl (frame_queue ?t) @ [3])"
    using th p r by blast
  then have b: "frame_queue (work_step (Iter (ReadOk 3)) ?t) = tl (frame_queue ?t) @ [3]"
    using len(2) by (simp del: work_step.simps)
  have tl: "tl (frame_queue ?t) @ [3] = [2, 3]"
    unfolding q by simp
  show ?thesis
    unfolding Let_def using q len(1) p r a b tl by (simp del: work_step.simps)
qed

section \<open>Read failures\<close>

lemma run_work_fails:
  "phase t = Looping \<Longrightarrow> running t \<Longrightarrow> read_failures t + k \<le> 5 \<Longrightarrow>
     run_work (replicate k (Iter ReadFail)) t = t\<lparr>read_failures := read_failures t + k\<rparr>"
proof (induction k arbitrary: t)
  case 0
  then show ?case by (simp add: run_work_def)
next
  case (Suc k)
  let ?t1 = "t\<lparr>read_failures := read_failures t + 1\<rparr>"
  have step: "work_step (Iter ReadFail) t = ?t1"
    using Suc.prems by (simp add: run_iter_fail_below)
  have "run_work (replicate k (Iter ReadFail)) ?t1 = ?t1\<lparr>read_failures := read_failures ?t1 + k\<rparr>"
    using Suc.prems by (intro Suc.IH) simp_all
  then show ?case
    using step by (simp add: run_work_def)
qed

lemma run_work_six_fails:
  assumes "phase t = Looping" "running t" "read_failures t = 0"
  shows "run_work (replicate 6 (Iter ReadFail)) t =
           t\<lparr>read_failures := 6, connected := False, cap_open := False, phase := Finished\<rparr>"
proof -
  have five: "run_work (replicate 5 (Iter ReadFail)) t = t\<lparr>read_failures := 5\<rparr>"
    using run_work_fails [of t 5] assms by simp
  have "replicate 6 (Iter ReadFail) = replicate 5 (Iter ReadFail) @ [Iter ReadFail :: 'a work]"
    by (simp add: numeral_eq_Suc replicate_append_same)
  then have "run_work (replicate 6 (Iter ReadFail)) t =
               work_step (Iter ReadFail) (run_work (replicate 5 (Iter ReadFail)) t)"
    by (simp only: run_work_snoc)
  then show ?thesis
    using five assms by (simp add: run_iter_fail_above)
qed

text \<open>
  C1. In a running, connected loop every failed read adds one to the failure counter; when
  the counter exceeds 5 the loop sets \<open>connected\<close> to false, releases the capture and ends;
  up to 5 the loop stays connected with the capture open; a successful read sets the counter
  to 0 and stores the frame. From a counter of 0: up to 5 failures in a row leave the loop
  connected and the next good read resets the counter, 6 in a row end it.
\<close>

theorem read_failure_threshold:
  assumes "phase t = Looping" and "running t" and "connected t" and "cap_open t"
  shows
    "read_failures (work_step (Iter ReadFail) t) = read_failures t + 1 \<and>
     (5 < read_failures t + 1 \<longrightarrow>
        (let t' = work_step (Iter ReadFail) t
         in \<not> connected t' \<and> \<not> cap_open t' \<and> phase t' = Finished)) \<and>
     (read_failures t + 1 \<le> 5 \<longrightarrow>
        (let t' = work_step (Iter ReadFail) t
         in connected t' \<and> cap_open t' \<and> phase t' = Looping \<and> running t')) \<and>
     (let t' = work_step (Iter (ReadOk f)) t
      in read_failures t' = 0 \<and> connected t' \<and> cap_open t' \<and> phase t' = Looping \<and>
         running t' \<and> latest_frame t' = Some f) \<and>
     (read_failures t = 0 \<longrightarrow>
        (\<forall>k\<le>5. let t' = run_work (replicate k (Iter ReadFail)) t
           in connected t' \<and> cap_open t' \<and> phase t' = Looping \<and> read_failures t' = k \<and>
              read_failures (work_step (Iter (ReadOk f)) t') = 0 \<and>
              connected (work_step (Iter (ReadOk f)) t')) \<and>
        (let t' = run_work (replicate 6 (Iter ReadFail)) t
         in \<not> connected t' \<and> \<not> cap_open t' \<and> phase t' = Finished))"
proof -
  have a: "read_failures (work_step (Iter ReadFail) t) = read_failures t + 1"
    using assms by (simp add: step_defs Let_def)
  have b: "5 < read_failures t + 1 \<longrightarrow>
        (let t' = work_step (Iter ReadFail) t
         in \<not> connected t' \<and> \<not> cap_open t' \<and> phase t' = Finished)"
    using assms by (simp add: step_defs Let_def)
  have c: "read_failures t + 1 \<le> 5 \<longrightarrow>
        (let t' = work_step (Iter ReadFail) t
         in connected t' \<and> cap_open t' \<and> phase t' = Looping \<and> running t')"
    using assms by (simp add: step_defs Let_def)
  have d: "let t' = work_step (Iter (ReadOk f)) t
      in read_failures t' = 0 \<and> connected t' \<and> cap_open t' \<and> phase t' = Looping \<and>
         running t' \<and> latest_frame t' = Some f"
    using assms by (simp add: step_defs Let_def)
  have e: "\<forall>k\<le>5. let t' = run_work (replicate k (Iter ReadFail)) t
           in connected t' \<and> cap_open t' \<and> phase t' = Looping \<and> read_failures t' = k \<and>
              read_failures (work_step (Iter (ReadOk f)) t') = 0 \<and>
              connected (work_step (Iter (ReadOk f)) t')"
    if z: "read_failures t = 0"
  proof (intro allI impI)
    fix k :: nat
    assume "k \<le> 5"
    then have "run_work (replicate k (Iter ReadFail)) t = t\<lparr>read_failures := k\<rparr>"
      using run_work_fails [of t k] assms z by simp
    then show "let t' = run_work (replicate k (Iter ReadFail)) t
           in connected t' \<and> cap_open t' \<and> phase t' = Looping \<and> read_failures t' = k \<and>
              read_failures (work_step (Iter (ReadOk f)) t') = 0 \<and>
              connected (work_step (Iter (ReadOk f)) t')"
      using assms by (simp add: step_defs Let_def)
  qed
  have g: "let t' = run_work (replicate 6 (Iter ReadFail)) t
         in \<not> connected t' \<and> \<not> cap_open t' \<and> phase t' = Finished"
    if z: "read_failures t = 0"
    using run_work_six_fails [OF assms(1,2) z] by simp
  show ?thesis
    using a b c d e g by blast
qed

theorem read_failure_threshold_witness:
  "phase looping0 = Looping \<and> running looping0 \<and> connected looping0 \<and> cap_open looping0 \<and>
   read_failures looping0 = 0 \<and>
   connected (run_work (replicate 5 (Iter ReadFail)) looping0) \<and>
   read_failures (run_work (replicate 5 (Iter ReadFail)) looping0) = 5 \<and>
   read_failures (work_step (Iter (ReadOk 7)) (run_work (replicate 5 (Iter ReadFail)) looping0)) = 0 \<and>
   \<not> connected (run_work (replicate 6 (Iter ReadFail)) looping0) \<and>
   \<not> cap_open (run_work (replicate 6 (Iter ReadFail)) looping0) \<and>
   phase (run_work (replicate 6 (Iter ReadFail)) looping0) = Finished"
proof -
  have h: "phase looping0 = Looping" "running looping0" "connected looping0" "cap_open looping0"
    "read_failures looping0 = 0"
    by (simp_all add: looping0_eq)
  note th = read_failure_threshold [OF h(1-4), of 7]
  let ?t5 = "run_work (replicate 5 (Iter ReadFail)) looping0"
  have six: "\<not> connected (run_work (replicate 6 (Iter ReadFail)) looping0) \<and>
     \<not> cap_open (run_work (replicate 6 (Iter ReadFail)) looping0) \<and>
     phase (run_work (replicate 6 (Iter ReadFail)) looping0) = Finished"
    using th h(5) unfolding Let_def by blast
  have "(5::nat) \<le> 5 \<longrightarrow>
     connected ?t5 \<and> cap_open ?t5 \<and> phase ?t5 = Looping \<and> read_failures ?t5 = 5 \<and>
     read_failures (work_step (Iter (ReadOk 7)) ?t5) = 0 \<and>
     connected (work_step (Iter (ReadOk 7)) ?t5)"
    using th h(5) unfolding Let_def by blast
  then have five: "connected ?t5 \<and> read_failures ?t5 = 5 \<and>
     read_failures (work_step (Iter (ReadOk 7)) ?t5) = 0"
    by (simp del: work_step.simps)
  show ?thesis
    using h six five by blast
qed

section \<open>What the consumer gets\<close>

text \<open>
  C2 (what the code does at the failing input). After two successful reads of frames 1 and 2
  and no call by the consumer, the queue holds both; \<^verbatim>\<open>get_frame\<close> returns frame 1, the
  oldest one queued, while the most recently captured frame is 2.
\<close>

theorem get_frame_returns_oldest_queued:
  "fst (get_frame (run_trace [Work (Begin True), Work (Iter (ReadOk 1)), Work (Iter (ReadOk 2))]
          (start (new_thread 0 cfg0)))) = Some (1 :: nat) \<and>
   latest_frame (run_trace [Work (Begin True), Work (Iter (ReadOk 1)), Work (Iter (ReadOk 2))]
          (start (new_thread 0 cfg0))) = Some (2 :: nat)"
  unfolding two_reads by (simp add: get_frame_def get_nowait_def)







section \<open>The connected flag\<close>

text \<open>
  C3 (counterexample). Right after the device has opened, \<open>connected\<close> is true although the
  loop has not read any frame yet: no read has returned a frame and \<open>latest_frame\<close> is empty.
\<close>

theorem connected_before_any_read:
  "connected (run_trace [Work (Begin True)] (start (new_thread 0 cfg0) :: nat camera_thread)) \<and>
   good_reads [Work (Begin True)] (start (new_thread 0 cfg0) :: nat camera_thread) = 0 \<and>
   latest_frame (run_trace [Work (Begin True)] (start (new_thread 0 cfg0) :: nat camera_thread)) = None"
  by (simp add: run_trace_def start_def new_thread_def cfg0_def run_begin_def dict_get_def Let_def)

lemma work_step_inv: "thread_inv t \<Longrightarrow> thread_inv (work_step w t)"
  by (cases w)
    (auto simp: thread_inv_def run_begin_def step_defs Let_def split: read_result.splits)

lemma apply_event_inv: "thread_inv t \<Longrightarrow> thread_inv (apply_event e t)"
proof (cases e)
  case (Work w)
  assume "thread_inv t"
  then show ?thesis using Work by (simp add: work_step_inv)
next
  case GetFrame
  assume "thread_inv t"
  then show ?thesis using GetFrame by (simp add: thread_inv_def get_frame_fields)
next
  case StopFlag
  assume "thread_inv t"
  then show ?thesis using StopFlag by (simp add: thread_inv_def)
qed

lemma run_trace_inv: "thread_inv t \<Longrightarrow> thread_inv (run_trace evs t)"
  unfolding run_trace_def
  by (induction evs arbitrary: t) (simp_all add: apply_event_inv)


lemma start_inv: "thread_inv (start (new_thread i cfg))"
  by (simp add: thread_inv_def start_def new_thread_def)

lemma apply_event_not_started:
  "phase t \<noteq> Started \<Longrightarrow> phase (apply_event e t) \<noteq> Started"
proof (cases e)
  case (Work w)
  assume "phase t \<noteq> Started"
  then show ?thesis using Work
    by (cases w) (auto simp: step_defs Let_def split: read_result.splits)
qed (simp_all add: get_frame_fields)

lemma apply_event_stays_disconnected:
  "phase t \<noteq> Started \<Longrightarrow> \<not> connected t \<Longrightarrow> \<not> connected (apply_event e t)"
proof (cases e)
  case (Work w)
  assume "phase t \<noteq> Started" "\<not> connected t"
  then show ?thesis using Work
    by (cases w) (auto simp: step_defs Let_def split: read_result.splits)
qed (simp_all add: get_frame_fields)

lemma run_trace_stays_disconnected:
  "phase t \<noteq> Started \<Longrightarrow> \<not> connected t \<Longrightarrow> \<not> connected (run_trace evs t)"
  unfolding run_trace_def
proof (induction evs arbitrary: t)
  case Nil
  then show ?case by simp
next
  case (Cons e evs)
  then show ?case
    using apply_event_not_started [of t e] apply_event_stays_disconnected [of t e]
    by simp
qed

lemma apply_event_from_started:
  "phase t = Started \<Longrightarrow> \<not> connected t \<Longrightarrow> e \<noteq> Work (Begin True) \<Longrightarrow>
     \<not> connected (apply_event e t)"
proof (cases e)
  case (Work w)
  assume "phase t = Started" "\<not> connected t" "e \<noteq> Work (Begin True)"
  then show ?thesis using Work
    by (cases w) (auto simp: run_begin_def Let_def)
qed (simp_all add: get_frame_fields)

lemma connected_needs_open:
  "phase t = Started \<Longrightarrow> \<not> connected t \<Longrightarrow> connected (run_trace evs t) \<Longrightarrow>
     Work (Begin True) \<in> set evs"
proof (induction evs arbitrary: t)
  case Nil
  then show ?case by (simp add: run_trace_def)
next
  case (Cons e evs)
  show ?case
  proof (cases "e = Work (Begin True)")
    case True
    then show ?thesis by simp
  next
    case False
    have run: "connected (run_trace evs (apply_event e t))"
      using Cons.prems(3) by (simp add: run_trace_def)
    have off: "\<not> connected (apply_event e t)"
      using Cons.prems(1,2) False by (rule apply_event_from_started)
    show ?thesis
    proof (cases "phase (apply_event e t) = Started")
      case True
      then have "Work (Begin True) \<in> set evs"
        using off run by (rule Cons.IH)
      then show ?thesis by simp
    next
      case left: False
      then have "\<not> connected (run_trace evs (apply_event e t))"
        using off by (rule run_trace_stays_disconnected)
      then show ?thesis using run by simp
    qed
  qed
qed

text \<open>
  C3 (amended). In every state a started capture thread can reach, \<open>connected\<close> being true
  implies that the worker's open of the source has succeeded and that \<^verbatim>\<open>run\<close> has not
  returned: the worker is in its loop or in the lines after it. The capture is then still
  open, except between \<^verbatim>\<open>cap.release()\<close> and \<^verbatim>\<open>self.connected = False\<close> at the end of \<^verbatim>\<open>run\<close>.
  A successful read is not required.
\<close>

theorem connected_implies_opened:
  "connected (run_trace evs (start (new_thread i cfg))) \<longrightarrow>
     Work (Begin True) \<in> set evs \<and>
     (phase (run_trace evs (start (new_thread i cfg))) = Looping \<or>
      phase (run_trace evs (start (new_thread i cfg))) = Reading \<or>
      phase (run_trace evs (start (new_thread i cfg))) = Leaving \<or>
      phase (run_trace evs (start (new_thread i cfg))) = Released) \<and>
     (cap_open (run_trace evs (start (new_thread i cfg))) \<or>
      phase (run_trace evs (start (new_thread i cfg))) = Released)"
proof
  let ?t0 = "start (new_thread i cfg) :: 'a camera_thread"
  assume c: "connected (run_trace evs ?t0)"
  have "thread_inv (run_trace evs ?t0)"
    using start_inv by (rule run_trace_inv)
  then have "(phase (run_trace evs ?t0) = Looping \<or> phase (run_trace evs ?t0) = Reading \<or>
      phase (run_trace evs ?t0) = Leaving \<or> phase (run_trace evs ?t0) = Released) \<and>
     (cap_open (run_trace evs ?t0) \<or> phase (run_trace evs ?t0) = Released)"
    using c unfolding thread_inv_def by blast
  moreover have "Work (Begin True) \<in> set evs"
    using c by (intro connected_needs_open [of ?t0]) (simp_all add: start_def new_thread_def)
  ultimately show "Work (Begin True) \<in> set evs \<and>
     (phase (run_trace evs ?t0) = Looping \<or> phase (run_trace evs ?t0) = Reading \<or>
      phase (run_trace evs ?t0) = Leaving \<or> phase (run_trace evs ?t0) = Released) \<and>
     (cap_open (run_trace evs ?t0) \<or> phase (run_trace evs ?t0) = Released)"
    by blast
qed

lemma stopped_after_release:
  "run_trace [Work (Begin True), StopFlag, Work Test, Work Release] (start (new_thread 0 cfg0)) =
   \<lparr>camera_index = 0, config = cfg0, running = False, connected = True, frame_queue = [],
      latest_frame = None :: nat option, phase = Released, read_failures = 0, cap_open = False\<rparr>"
  by (simp add: run_trace_def start_def new_thread_def cfg0_def run_begin_def dict_get_def
      Let_def loop_test_def release_def)

theorem connected_implies_opened_witness:
  "connected (run_trace [Work (Begin True)] (start (new_thread 0 cfg0) :: nat camera_thread)) \<and>
   phase (run_trace [Work (Begin True)] (start (new_thread 0 cfg0) :: nat camera_thread)) = Looping \<and>
   cap_open (run_trace [Work (Begin True)] (start (new_thread 0 cfg0) :: nat camera_thread)) \<and>
   connected (run_trace [Work (Begin True), StopFlag, Work Test, Work Release]
     (start (new_thread 0 cfg0) :: nat camera_thread)) \<and>
   \<not> cap_open (run_trace [Work (Begin True), StopFlag, Work Test, Work Release]
     (start (new_thread 0 cfg0) :: nat camera_thread)) \<and>
   phase (run_trace [Work (Begin True), StopFlag, Work Test, Work Release]
     (start (new_thread 0 cfg0) :: nat camera_thread)) = Released"
proof -
  let ?t0 = "start (new_thread 0 cfg0) :: nat camera_thread"
  let ?late = "[Work (Begin True), StopFlag, Work Test, Work Release] :: nat event list"
  have c: "connected (run_trace [Work (Begin True)] ?t0)"
    and p: "phase (run_trace [Work (Begin True)] ?t0) = Looping"
    by (simp_all add: run_trace_def start_def new_thread_def cfg0_def run_begin_def dict_get_def
        Let_def)
  have c2: "connected (run_trace ?late ?t0)" and o2: "\<not> cap_open (run_trace ?late ?t0)"
    unfolding stopped_after_release by simp_all
  have a: "cap_open (run_trace [Work (Begin True)] ?t0) \<or>
      phase (run_trace [Work (Begin True)] ?t0) = Released"
    using c connected_implies_opened [of "[Work (Begin True)]" 0 cfg0] by blast
  have b: "cap_open (run_trace ?late ?t0) \<or> phase (run_trace ?late ?t0) = Released"
    using c2 connected_implies_opened [of ?late 0 cfg0] by blast
  show ?thesis
    using c p c2 o2 a b by simp
qed

section \<open>The supervisor's queries\<close>

lemma dict_contains_map_of: "dict_contains d k \<longleftrightarrow> map_of d k \<noteq> None"
  by (simp add: dict_contains_def map_of_eq_None_iff)

lemma dict_item_Some: "map_of d k = Some v \<Longrightarrow> dict_item d k = Inr v"
  by (simp add: dict_item_def)

lemma mgr_get_frame_absent:
  "map_of (camera_threads m) i = None \<Longrightarrow> mgr_get_frame m i = Inr (None, m)"
  by (simp add: mgr_get_frame_def dict_contains_map_of)

lemma mgr_get_frame_present:
  "map_of (camera_threads m) i = Some t \<Longrightarrow>
     mgr_get_frame m i =
       Inr (if connected t
            then (fst (get_frame t),
                  m\<lparr>camera_threads := AList.update i (snd (get_frame t)) (camera_threads m)\<rparr>)
            else (None, m))"
  by (simp add: mgr_get_frame_def dict_contains_map_of dict_item_Some split_beta)

lemma is_camera_connected_absent:
  "map_of (camera_threads m) i = None \<Longrightarrow> is_camera_connected m i = Inr False"
  by (simp add: is_camera_connected_def dict_contains_map_of)

lemma is_camera_connected_present:
  "map_of (camera_threads m) i = Some t \<Longrightarrow> is_camera_connected m i = Inr (connected t)"
  by (simp add: is_camera_connected_def dict_contains_map_of dict_item_Some)

text \<open>
  C5. \<^verbatim>\<open>CameraManager.get_frame\<close> returns \<^verbatim>\<open>None\<close> when the dictionary has no thread for the
  index or the thread is not connected, and otherwise what the thread's \<^verbatim>\<open>get_frame\<close>
  returns (the thread keeps the queue that call leaves); \<^verbatim>\<open>is_camera_connected\<close> is false
  without a thread and the thread's flag otherwise. Neither raises: both dictionary reads
  are guarded by the membership test, and only non-blocking queue calls are made.
\<close>

theorem mgr_get_frame_cases:
  "(map_of (camera_threads m) i = None \<longrightarrow>
      mgr_get_frame m i = Inr (None, m) \<and> is_camera_connected m i = Inr False) \<and>
   (\<forall>t. map_of (camera_threads m) i = Some t \<and> \<not> connected t \<longrightarrow>
      mgr_get_frame m i = Inr (None, m) \<and> is_camera_connected m i = Inr False) \<and>
   (\<forall>t. map_of (camera_threads m) i = Some t \<and> connected t \<longrightarrow>
      mgr_get_frame m i =
        Inr (fst (get_frame t),
             m\<lparr>camera_threads := AList.update i (snd (get_frame t)) (camera_threads m)\<rparr>) \<and>
      is_camera_connected m i = Inr True) \<and>
   (\<exists>r. mgr_get_frame m i = Inr r) \<and> (\<exists>b. is_camera_connected m i = Inr b)"
proof (cases "map_of (camera_threads m) i")
  case None
  then show ?thesis
    by (auto simp: mgr_get_frame_absent is_camera_connected_absent)
next
  case (Some t)
  then show ?thesis
    by (auto simp: mgr_get_frame_present is_camera_connected_present)
qed

theorem mgr_get_frame_cases_witness:
  "map_of (camera_threads mgr0) 1 = None \<and> mgr_get_frame mgr0 1 = Inr (None, mgr0) \<and>
   is_camera_connected mgr0 1 = Inr False \<and>
   map_of (camera_threads mgr0) 0 = Some looping0 \<and> connected looping0 \<and>
   mgr_get_frame mgr0 0 =
     Inr (fst (get_frame looping0),
          mgr0\<lparr>camera_threads := AList.update 0 (snd (get_frame looping0)) (camera_threads mgr0)\<rparr>) \<and>
   is_camera_connected mgr0 0 = Inr True"
proof -
  have a: "map_of (camera_threads mgr0) 1 = None"
    by (simp add: mgr0_def)
  have b: "map_of (camera_threads mgr0) 0 = Some looping0 \<and> connected looping0"
    by (simp add: mgr0_def looping0_eq)
  show ?thesis
    using a b mgr_get_frame_cases [of mgr0 1] mgr_get_frame_cases [of mgr0 0]
    by blast
qed

section \<open>Stopping a thread\<close>










section \<open>Reloading the configuration\<close>

lemma stop_camera_head:
  assumes "camera_threads m = (i, t) # rest" and "i \<notin> fst ` set rest"
  shows "stop_camera sched i m = (m\<lparr>camera_threads := rest\<rparr>, [stop (sched i) t])"
  using assms by (simp add: stop_camera_def)

lemma stop_each_all:
  "distinct (map fst al) \<Longrightarrow> camera_threads m = al \<Longrightarrow>
     stop_each sched (map fst al) m =
       (m\<lparr>camera_threads := []\<rparr>, map (\<lambda>p. stop (sched (fst p)) (snd p)) al)"
proof (induction al arbitrary: m)
  case Nil
  then show ?case by simp
next
  case (Cons p al)
  obtain i t where p: "p = (i, t)" by (cases p)
  have notin: "i \<notin> fst ` set al"
    using Cons.prems(1) p by simp
  have head: "stop_camera sched i m = (m\<lparr>camera_threads := al\<rparr>, [stop (sched i) t])"
    using Cons.prems(2) p notin by (intro stop_camera_head) simp_all
  have rest: "stop_each sched (map fst al) (m\<lparr>camera_threads := al\<rparr>) =
      (m\<lparr>camera_threads := []\<rparr>, map (\<lambda>p. stop (sched (fst p)) (snd p)) al)"
    using Cons.IH [of "m\<lparr>camera_threads := al\<rparr>"] Cons.prems(1) by simp
  show ?case
    using head rest p by simp
qed

lemma stop_all_cameras_eq:
  "distinct (map fst (camera_threads m)) \<Longrightarrow>
     stop_all_cameras sched m =
       (m\<lparr>camera_threads := []\<rparr>, map (\<lambda>p. stop (sched (fst p)) (snd p)) (camera_threads m))"
  by (simp add: stop_all_cameras_def stop_each_all)

lemma start_if_enabled_cameras: "cameras (start_if_enabled i m) = cameras m"
  by (simp add: start_if_enabled_def Let_def)


lemma start_if_enabled_lookup:
  "map_of (camera_threads (start_if_enabled i m)) j =
     (if j = i \<and> dict_get (enabled (get_camera_config (cameras m) i)) False
      then Some (start (new_thread i (get_camera_config (cameras m) i)))
      else map_of (camera_threads m) j)"
  by (simp add: start_if_enabled_def Let_def AList.update_conv')

lemma fold_start_lookup:
  "distinct is \<Longrightarrow>
   map_of (camera_threads (fold start_if_enabled is m)) j =
     (if j \<in> set is \<and> dict_get (enabled (get_camera_config (cameras m) j)) False
      then Some (start (new_thread j (get_camera_config (cameras m) j)))
      else map_of (camera_threads m) j)"
proof (induction "is" arbitrary: m)
  case Nil
  then show ?case by simp
next
  case (Cons i "is")
  have d: "distinct is" and ni: "i \<notin> set is"
    using Cons.prems by simp_all
  show ?case
    using Cons.IH [OF d, of "start_if_enabled i m"] ni
    by (auto simp: start_if_enabled_cameras start_if_enabled_lookup)
qed



lemma range48_distinct: "distinct (map int [0..<48])"
  by (simp add: distinct_map inj_on_def)

lemma range48_mem: "j \<in> int ` {0..<48} \<longleftrightarrow> 0 \<le> j \<and> j < 48"
proof
  assume "j \<in> int ` {0..<48}"
  then show "0 \<le> j \<and> j < 48" by auto
next
  assume r: "0 \<le> j \<and> j < 48"
  then have "j = int (nat j)" and "nat j \<in> {0..<48}" by auto
  then show "j \<in> int ` {0..<48}" by (rule image_eqI)
qed

lemma reload_config_eq:
  assumes "distinct (map fst (camera_threads m))"
  shows "reload_config sched m =
     (fold start_if_enabled (map int [0..<48]) (m\<lparr>camera_threads := []\<rparr>),
      map (\<lambda>p. stop (sched (fst p)) (snd p)) (camera_threads m))"
  using assms by (simp add: reload_config_def stop_all_cameras_eq)

lemma reload_config_lookup:
  assumes "distinct (map fst (camera_threads m))"
  shows "map_of (camera_threads (fst (reload_config sched m))) j =
     (if 0 \<le> j \<and> j < 48 \<and> dict_get (enabled (get_camera_config (cameras m) j)) False
      then Some (start (new_thread j (get_camera_config (cameras m) j)))
      else None)"
  unfolding reload_config_eq [OF assms] fst_conv
  by (subst fold_start_lookup [OF range48_distinct]) (simp add: range48_mem)








section \<open>Configuration errors\<close>

text \<open>
  C7 (counterexample). With an enabled network source whose URL is empty at index 0,
  \<^verbatim>\<open>reload_config\<close> creates and starts a capture thread with that descriptor, and the
  thread's \<^verbatim>\<open>run\<close> is entered (it sets \<open>running\<close>).
\<close>

theorem empty_url_reaches_capture_loop:
  "source_type cfg_bad = Some ''rtsp'' \<and> url cfg_bad = Some '''' \<and>
   map_of (camera_threads (fst (reload_config no_sched mgr_bad))) 0 =
     Some (start (new_thread 0 cfg_bad)) \<and>
   running (work_step (Begin True) (start (new_thread 0 cfg_bad) :: nat camera_thread))"
proof -
  have d: "distinct (map fst (camera_threads mgr_bad))"
    by (simp add: mgr_bad_def)
  have c: "get_camera_config (cameras mgr_bad) 0 = cfg_bad"
    by (simp add: mgr_bad_def get_camera_config_def)
  have "map_of (camera_threads (fst (reload_config no_sched mgr_bad))) 0 =
     Some (start (new_thread 0 cfg_bad))"
    by (simp add: reload_config_lookup [OF d] c) (simp add: cfg_bad_def dict_get_def)
  moreover have "running (work_step (Begin True) (start (new_thread 0 cfg_bad) :: nat camera_thread))"
    by (simp add: start_def new_thread_def run_begin_def Let_def cfg_bad_def dict_get_def)
  ultimately show ?thesis
    by (simp add: cfg_bad_def)
qed

lemma apply_event_never_opens: "never_opens t \<Longrightarrow> never_opens (apply_event e t)"
proof (cases e)
  case (Work w)
  assume "never_opens t"
  then show ?thesis using Work
    by (cases w) (auto simp: never_opens_def run_begin_def Let_def)
next
  case GetFrame
  assume "never_opens t"
  then show ?thesis using GetFrame
    by (simp add: never_opens_def get_frame_fields)
next
  case StopFlag
  assume "never_opens t"
  then show ?thesis using StopFlag by (simp add: never_opens_def)
qed

lemma run_trace_never_opens: "never_opens t \<Longrightarrow> never_opens (run_trace evs t)"
  unfolding run_trace_def
  by (induction evs arbitrary: t) (simp_all add: apply_event_never_opens)

text \<open>
  C7 (amended). A capture thread created for a network source with an empty or missing URL
  ends in the first step of \<^verbatim>\<open>run\<close>, whatever the device would answer: it never connects,
  never holds a capture and never enters the read loop. An index outside the configuration
  list gets the disabled default descriptor, \<^verbatim>\<open>reload_config\<close> creates no thread for it, and
  \<^verbatim>\<open>set_camera_config\<close> refuses it by returning false and leaving the list as it is.
\<close>

theorem config_error_handling:
  "(source_type cfg = Some ''rtsp'' \<and> dict_get (url cfg) '''' = '''' \<longrightarrow>
      \<not> connected (run_trace evs (start (new_thread i cfg) :: 'f camera_thread)) \<and>
      \<not> cap_open (run_trace evs (start (new_thread i cfg) :: 'f camera_thread)) \<and>
      phase (run_trace evs (start (new_thread i cfg) :: 'f camera_thread)) \<noteq> Looping \<and>
      phase (work_step (Begin opened) (start (new_thread i cfg) :: 'f camera_thread)) = Finished) \<and>
   (\<not> (0 \<le> j \<and> j < int (length cams)) \<longrightarrow>
      get_camera_config cams j = default_camera_config j \<and>
      enabled (get_camera_config cams j) = Some False \<and>
      map_of (camera_threads (fst (reload_config sched
        (\<lparr>cameras = cams, camera_threads = []\<rparr> :: 'g camera_manager)))) j = None \<and>
      set_camera_config cams j c = (cams, False))"
proof -
  let ?t0 = "start (new_thread i cfg) :: 'f camera_thread"
  let ?m = "\<lparr>cameras = cams, camera_threads = []\<rparr> :: 'g camera_manager"
  have part1: "\<not> connected (run_trace evs ?t0) \<and> \<not> cap_open (run_trace evs ?t0) \<and>
      phase (run_trace evs ?t0) \<noteq> Looping \<and> phase (work_step (Begin opened) ?t0) = Finished"
    if bad: "source_type cfg = Some ''rtsp'' \<and> dict_get (url cfg) '''' = ''''"
  proof -
    have "never_opens ?t0"
      using bad by (simp add: never_opens_def start_def new_thread_def)
    then have "never_opens (run_trace evs ?t0)"
      by (rule run_trace_never_opens)
    moreover have "phase (work_step (Begin opened) ?t0) = Finished"
      using bad by (simp add: start_def new_thread_def run_begin_def Let_def)
    ultimately show ?thesis
      by (auto simp: never_opens_def)
  qed
  have part2: "get_camera_config cams j = default_camera_config j \<and>
      enabled (get_camera_config cams j) = Some False \<and>
      map_of (camera_threads (fst (reload_config sched ?m))) j = None \<and>
      set_camera_config cams j c = (cams, False)"
    if out: "\<not> (0 \<le> j \<and> j < int (length cams))"
  proof -
    have g: "get_camera_config cams j = default_camera_config j"
      using out by (auto simp: get_camera_config_def)
    have d: "distinct (map fst (camera_threads ?m))"
      by simp
    have "map_of (camera_threads (fst (reload_config sched ?m))) j = None"
      unfolding reload_config_lookup [OF d]
      by (simp add: g default_camera_config_def dict_get_def)
    moreover have "set_camera_config cams j c = (cams, False)"
      using out by (auto simp: set_camera_config_def)
    ultimately show ?thesis
      using g by (simp add: default_camera_config_def)
  qed
  show ?thesis
    using part1 part2 by blast
qed

theorem config_error_handling_witness:
  "source_type cfg_bad = Some ''rtsp'' \<and> dict_get (url cfg_bad) '''' = '''' \<and>
   \<not> connected (run_trace [Work (Begin True), Work (Iter (ReadOk 1))]
                  (start (new_thread 0 cfg_bad) :: nat camera_thread)) \<and>
   phase (work_step (Begin True) (start (new_thread 0 cfg_bad) :: nat camera_thread)) = Finished \<and>
   \<not> (0 \<le> (1::int) \<and> 1 < int (length [cfg_bad])) \<and>
   map_of (camera_threads (fst (reload_config no_sched \<lparr>cameras = [cfg_bad], camera_threads = []\<rparr>))) 1
     = None \<and>
   set_camera_config [cfg_bad] 1 cfg0 = ([cfg_bad], False)"
proof -
  have bad: "source_type cfg_bad = Some ''rtsp'' \<and> dict_get (url cfg_bad) '''' = ''''"
    by (simp add: cfg_bad_def dict_get_def)
  have out: "\<not> (0 \<le> (1::int) \<and> 1 < int (length [cfg_bad]))"
    by simp
  show ?thesis
    using bad out
      config_error_handling [of cfg_bad "[Work (Begin True), Work (Iter (ReadOk 1))]" 0 True
        1 "[cfg_bad]" no_sched cfg0]
    by blast
qed

section \<open>Stopping and the capture handle\<close>





section \<open>The connection test\<close>

text \<open>
  C9 (counterexample). For a network descriptor with an empty URL the connection test makes
  no call on any capture handle: no open, no read, no release.
\<close>

theorem probe_skipped_for_empty_url:
  "test_camera_connection 0 cfg_bad OpenOk (ReadOk (1::nat)) = ((False, ''RTSP URL is empty''), [])"
  by (simp add: test_camera_connection_def test_body_def cfg_bad_def)

lemma test_not_probed:
  assumes "\<not> probed cfg"
  shows "snd (test_camera_connection idx cfg opn rd) = [] \<and>
     \<not> fst (fst (test_camera_connection idx cfg opn rd)) \<and>
     snd (fst (test_camera_connection idx cfg opn rd)) \<noteq> []"
proof (cases "source_type cfg")
  case None
  then show ?thesis
    by (simp add: test_camera_connection_def test_body_def)
next
  case (Some st)
  show ?thesis
  proof (cases "st = ''rtsp''")
    case True
    then have "url cfg = None \<or> url cfg = Some ''''"
      using assms Some by (simp add: probed_def)
    then show ?thesis
      using Some True by (auto simp: test_camera_connection_def test_body_def)
  next
    case False
    then have "device cfg = None"
      using assms Some by (simp add: probed_def)
    then show ?thesis
      using Some False by (simp add: test_camera_connection_def test_body_def)
  qed
qed

lemma test_probed:
  assumes "probed cfg"
  shows "test_camera_connection idx cfg opn rd =
     (case probe opn rd (failure_reason cfg) of
        (Inl e, ops) \<Rightarrow> ((False, ''Error testing connection: '' @ e), ops)
      | (Inr res, ops) \<Rightarrow> (res, ops))"
proof -
  consider (net) u where "source_type cfg = Some ''rtsp''" "url cfg = Some u" "u \<noteq> ''''"
    | (dev) st d where "source_type cfg = Some st" "st \<noteq> ''rtsp''" "device cfg = Some d"
    using assms unfolding probed_def by auto
  then show ?thesis
  proof cases
    case net
    then show ?thesis
      by (simp add: test_camera_connection_def test_body_def failure_reason_def)
  next
    case dev
    then show ?thesis
      by (simp add: test_camera_connection_def test_body_def failure_reason_def dict_get_def)
  qed
qed

lemma failure_reason_nonempty: "failure_reason cfg \<noteq> []"
  by (simp add: failure_reason_def)

text \<open>
  C9 (amended). The connection test always returns a flag and a non-empty reason; an
  exception of the open or of the read is returned as a failure whose reason carries its
  text. A descriptor is probed when its kind is given and it has, for a network source, a
  URL that is not empty, for any other source, a device; the test opens the source exactly
  for the descriptors it probes, and a network descriptor with an empty URL is refused with
  its own reason and no call at all. A probe opens once, reads once exactly when the open
  succeeded and, when neither the open nor the read raised, releases the handle as its last
  call. The test succeeds exactly when the descriptor is probed, the open succeeds and the
  read returns a frame; a failed open or a failed read gives the failure reason of the
  source's kind.
\<close>

theorem test_camera_connection_result:
  "(fst (fst (test_camera_connection idx cfg opn rd)) \<longleftrightarrow>
      probed cfg \<and> opn = OpenOk \<and> is_read_ok rd) \<and>
   (OpOpen \<in> set (snd (test_camera_connection idx cfg opn rd)) \<longleftrightarrow> probed cfg) \<and>
   (OpRead \<in> set (snd (test_camera_connection idx cfg opn rd)) \<longleftrightarrow>
      probed cfg \<and> opn = OpenOk) \<and>
   (\<not> probed cfg \<longrightarrow> snd (test_camera_connection idx cfg opn rd) = []) \<and>
   (source_type cfg = Some ''rtsp'' \<and> url cfg = Some '''' \<longrightarrow>
      test_camera_connection idx cfg opn rd = ((False, ''RTSP URL is empty''), [])) \<and>
   (probed cfg \<and> opn = OpenOk \<and> is_read_ok rd \<longrightarrow>
      test_camera_connection idx cfg opn rd =
        ((True, ''Connection successful''), [OpOpen, OpRead, OpRelease])) \<and>
   (probed cfg \<and> opn = OpenOk \<and> rd = ReadFail \<longrightarrow>
      test_camera_connection idx cfg opn rd =
        ((False, failure_reason cfg), [OpOpen, OpRead, OpRelease])) \<and>
   (probed cfg \<and> opn = OpenFail \<longrightarrow>
      test_camera_connection idx cfg opn rd = ((False, failure_reason cfg), [OpOpen, OpRelease])) \<and>
   (\<forall>e. probed cfg \<and> (opn = OpenRaise e \<or> opn = OpenOk \<and> rd = ReadRaise e) \<longrightarrow>
      fst (test_camera_connection idx cfg opn rd) = (False, ''Error testing connection: '' @ e)) \<and>
   snd (fst (test_camera_connection idx cfg opn rd)) \<noteq> [] \<and>
   snd (test_camera_connection idx cfg opn rd) \<in>
     {[], [OpOpen], [OpOpen, OpRelease], [OpOpen, OpRead], [OpOpen, OpRead, OpRelease]} \<and>
   (snd (test_camera_connection idx cfg opn rd) \<noteq> [] \<and> \<not> raises opn rd \<longrightarrow>
      last (snd (test_camera_connection idx cfg opn rd)) = OpRelease)"
proof (cases "probed cfg")
  case False
  have e: "source_type cfg = Some ''rtsp'' \<and> url cfg = Some '''' \<longrightarrow>
      test_camera_connection idx cfg opn rd = ((False, ''RTSP URL is empty''), [])"
    by (simp add: test_camera_connection_def test_body_def)
  show ?thesis
    using False e test_not_probed [OF False, of idx opn rd] by auto
next
  case True
  then have ne: "\<not> (source_type cfg = Some ''rtsp'' \<and> url cfg = Some '''')"
    by (auto simp: probed_def)
  note R = test_probed [OF True]
  show ?thesis
  proof (cases opn)
    case OpenOk
    then show ?thesis
      using True ne failure_reason_nonempty [of cfg]
      by (cases rd) (simp_all add: R probe_def is_read_ok_def raises_def)
  next
    case OpenFail
    then show ?thesis
      using True ne failure_reason_nonempty [of cfg]
      by (simp add: R probe_def is_read_ok_def raises_def)
  next
    case (OpenRaise e)
    then show ?thesis
      using True ne by (simp add: R probe_def is_read_ok_def raises_def)
  qed
qed

lemma probed_examples: "probed cfg_rtsp" "probed cfg0" "\<not> probed cfg_bad"
  by (simp_all add: probed_def cfg_rtsp_def cfg0_def cfg_bad_def)

lemma failure_reason_cfg0: "failure_reason cfg0 = ''Failed to connect to local camera device 0''"
  by code_simp

theorem test_camera_connection_result_witness:
  "probed cfg_rtsp \<and> is_read_ok (ReadOk (1::nat)) \<and>
   test_camera_connection 0 cfg_rtsp OpenOk (ReadOk (1::nat)) =
     ((True, ''Connection successful''), [OpOpen, OpRead, OpRelease]) \<and>
   \<not> raises OpenOk (ReadOk (1::nat)) \<and>
   last (snd (test_camera_connection 0 cfg_rtsp OpenOk (ReadOk (1::nat)))) = OpRelease \<and>
   test_camera_connection 0 cfg_rtsp OpenOk (ReadFail :: nat read_result) =
     ((False, ''Failed to connect to RTSP stream''), [OpOpen, OpRead, OpRelease]) \<and>
   probed cfg0 \<and>
   test_camera_connection 0 cfg0 OpenFail (ReadFail :: nat read_result) =
     ((False, ''Failed to connect to local camera device 0''), [OpOpen, OpRelease]) \<and>
   fst (test_camera_connection 0 cfg0 (OpenRaise ''boom'') (ReadFail :: nat read_result)) =
     (False, ''Error testing connection: boom'') \<and>
   \<not> probed cfg_bad \<and> source_type cfg_bad = Some ''rtsp'' \<and> url cfg_bad = Some '''' \<and>
   test_camera_connection 0 cfg_bad OpenOk (ReadOk (1::nat)) = ((False, ''RTSP URL is empty''), [])"
proof -
  note ok = test_camera_connection_result [of 0 cfg_rtsp OpenOk "ReadOk (1::nat)"]
  note rf = test_camera_connection_result [of 0 cfg_rtsp OpenOk "ReadFail :: nat read_result"]
  note fl = test_camera_connection_result [of 0 cfg0 OpenFail "ReadFail :: nat read_result"]
  note rs = test_camera_connection_result
    [of 0 cfg0 "OpenRaise ''boom''" "ReadFail :: nat read_result"]
  note bad = test_camera_connection_result [of 0 cfg_bad OpenOk "ReadOk (1::nat)"]
  have i: "is_read_ok (ReadOk (1::nat))" and n: "\<not> raises OpenOk (ReadOk (1::nat))"
    by (simp_all add: is_read_ok_def raises_def)
  have d: "source_type cfg_bad = Some ''rtsp'' \<and> url cfg_bad = Some ''''"
    by (simp add: cfg_bad_def)
  have r1: "test_camera_connection 0 cfg_rtsp OpenOk (ReadOk (1::nat)) =
      ((True, ''Connection successful''), [OpOpen, OpRead, OpRelease])"
    using ok probed_examples(1) i by blast
  then have ne: "snd (test_camera_connection 0 cfg_rtsp OpenOk (ReadOk (1::nat))) \<noteq> []"
    by simp
  have r2: "last (snd (test_camera_connection 0 cfg_rtsp OpenOk (ReadOk (1::nat)))) = OpRelease"
    using ok ne n by blast
  have "test_camera_connection 0 cfg_rtsp OpenOk (ReadFail :: nat read_result) =
      ((False, failure_reason cfg_rtsp), [OpOpen, OpRead, OpRelease])"
    using rf probed_examples(1) by blast
  then have r3: "test_camera_connection 0 cfg_rtsp OpenOk (ReadFail :: nat read_result) =
      ((False, ''Failed to connect to RTSP stream''), [OpOpen, OpRead, OpRelease])"
    by (simp add: failure_reason_def cfg_rtsp_def)
  have "test_camera_connection 0 cfg0 OpenFail (ReadFail :: nat read_result) =
      ((False, failure_reason cfg0), [OpOpen, OpRelease])"
    using fl probed_examples(2) by blast
  then have r4: "test_camera_connection 0 cfg0 OpenFail (ReadFail :: nat read_result) =
      ((False, ''Failed to connect to local camera device 0''), [OpOpen, OpRelease])"
    by (simp only: failure_reason_cfg0)
  have "fst (test_camera_connection 0 cfg0 (OpenRaise ''boom'') (ReadFail :: nat read_result)) =
      (False, ''Error testing connection: '' @ ''boom'')"
    using rs probed_examples(2) by blast
  then have r5: "fst (test_camera_connection 0 cfg0 (OpenRaise ''boom'')
      (ReadFail :: nat read_result)) = (False, ''Error testing connection: boom'')"
    by simp
  have r6: "test_camera_connection 0 cfg_bad OpenOk (ReadOk (1::nat)) =
      ((False, ''RTSP URL is empty''), [])"
    using bad d by blast
  show ?thesis
    using probed_examples i n d r1 r2 r3 r4 r5 r6 by blast
qed

end
